theory Spec2Isabelle
  imports Complex_Main "HOL-Library.AList"
begin

section \<open>A Naive Bayes text classifier (main.go)\<close>

text \<open>
  The development embeds the classifier of \<^verbatim>\<open>main.go\<close>: the n-gram tokenizer
  \<^verbatim>\<open>SplitWords\<close>, the constructor \<^verbatim>\<open>NewClassifier\<close> and the three methods
  \<^verbatim>\<open>Train\<close>, \<^verbatim>\<open>GetPrior\<close> and \<^verbatim>\<open>Classify\<close>.

  Conventions of the embedding.
  \<^item> A Go \<^verbatim>\<open>float64\<close> is a value of the type \<open>f64\<close>: an exact rational, or one of the
    three special values that IEEE division produces. Arithmetic on finite values is
    exact: rounding, overflow, underflow and the sign of zero are outside the model.
    Every counter of the program is an integer far below \<open>2^53\<close> in any run that fits
    in memory (each increment of a counter comes with stored data), where \<^verbatim>\<open>float64\<close>
    addition of one is exact.
  \<^item> A Go \<^verbatim>\<open>map\<close> is an association list; a lookup is \<open>map_of\<close>, a store is
    \<open>AList.update\<close>, \<^verbatim>\<open>len\<close> is \<open>length\<close>. Go leaves the iteration order of a
    map open; the model iterates in insertion order, and on a trained classifier the
    results do not depend on the order (\<open>result_loop_keys\<close>).
  \<^item> A Go \<^verbatim>\<open>int\<close> is an \<open>int\<close>: the only addition on it, \<^verbatim>\<open>i+size\<close> in
    \<^verbatim>\<open>SplitWords\<close>, stays between \<^verbatim>\<open>size\<close> and \<^verbatim>\<open>len(words)+1\<close>.
  \<^item> A run-time panic is the left summand of a result \<open>panic + 'a\<close>.
  \<^item> A method on the pointer receiver \<^verbatim>\<open>*Classifier\<close> takes the receiver's state and
    returns the state after the call.
\<close>

subsection \<open>float64\<close>

datatype f64 = Fin (fin_val: rat) | PInf | NInf | NaN

fun fadd :: "f64 \<Rightarrow> f64 \<Rightarrow> f64" where
  "fadd (Fin a) (Fin b) = Fin (a + b)"
| "fadd NaN _ = NaN"
| "fadd _ NaN = NaN"
| "fadd PInf NInf = NaN"
| "fadd NInf PInf = NaN"
| "fadd PInf _ = PInf"
| "fadd _ PInf = PInf"
| "fadd NInf _ = NInf"
| "fadd _ NInf = NInf"

text \<open>
  The sign rules of the special values: \<open>inf_times a\<close> is the product of the positive
  infinity and the finite \<open>a\<close>, which is also the quotient of \<open>a\<close> by zero.
\<close>

fun fneg :: "f64 \<Rightarrow> f64" where
  "fneg (Fin a) = Fin (- a)"
| "fneg PInf = NInf"
| "fneg NInf = PInf"
| "fneg NaN = NaN"

fun inf_times :: "rat \<Rightarrow> f64" where
  "inf_times a = (if a = 0 then NaN else if 0 < a then PInf else NInf)"

fun fmul :: "f64 \<Rightarrow> f64 \<Rightarrow> f64" where
  "fmul (Fin a) (Fin b) = Fin (a * b)"
| "fmul NaN _ = NaN"
| "fmul _ NaN = NaN"
| "fmul PInf (Fin b) = inf_times b"
| "fmul (Fin a) PInf = inf_times a"
| "fmul NInf (Fin b) = fneg (inf_times b)"
| "fmul (Fin a) NInf = fneg (inf_times a)"
| "fmul PInf PInf = PInf"
| "fmul NInf NInf = PInf"
| "fmul PInf NInf = NInf"
| "fmul NInf PInf = NInf"

fun fdiv :: "f64 \<Rightarrow> f64 \<Rightarrow> f64" where
  "fdiv (Fin a) (Fin b) = (if b = 0 then inf_times a else Fin (a / b))"
| "fdiv NaN _ = NaN"
| "fdiv _ NaN = NaN"
| "fdiv (Fin a) PInf = Fin 0"
| "fdiv (Fin a) NInf = Fin 0"
| "fdiv PInf (Fin b) = (if 0 \<le> b then PInf else NInf)"
| "fdiv NInf (Fin b) = (if 0 \<le> b then NInf else PInf)"
| "fdiv PInf _ = NaN"
| "fdiv NInf _ = NaN"

text \<open>The conversion \<^verbatim>\<open>float64(len(x))\<close>.\<close>

definition f64_of_len :: "'a list \<Rightarrow> f64" where
  "f64_of_len xs = Fin (of_nat (length xs))"

subsection \<open>Panics\<close>

datatype panic = SliceBoundsOutOfRange | NilPointerDereference

subsection \<open>strings.Split and strings.Join\<close>

text \<open>
  The two functions of Go's standard library that the tokenizer calls, after their
  documentation: \<^verbatim>\<open>strings.Split(s, sep)\<close> cuts \<^verbatim>\<open>s\<close> at every occurrence of a
  non-empty separator and returns the pieces between them, so a string with \<open>n\<close>
  separators gives \<open>n + 1\<close> pieces, empty ones included, and the empty string gives one
  empty piece. The program only splits at the single space. \<^verbatim>\<open>strings.Join\<close>
  concatenates the elements with the separator between neighbours.
\<close>

fun split_from :: "string \<Rightarrow> string \<Rightarrow> string list" where
  "split_from piece [] = [rev piece]"
| "split_from piece (ch # rest) =
     (if ch = CHR '' '' then rev piece # split_from [] rest
      else split_from (ch # piece) rest)"

definition Split :: "string \<Rightarrow> string list" where
  "Split sentence = split_from [] sentence"

fun Join :: "string list \<Rightarrow> string \<Rightarrow> string" where
  "Join [] sep = []"
| "Join [w] sep = w"
| "Join (w # ws) sep = w @ sep @ Join ws sep"

subsection \<open>SplitWords\<close>

text \<open>
  The slice expression \<^verbatim>\<open>words[lo:hi]\<close>. It panics unless \<open>0 \<le> lo \<le> hi \<le> cap(words)\<close>;
  the slice that \<^verbatim>\<open>strings.Split\<close> returns is as long as its capacity, and the loop
  takes a window only after it has checked \<open>hi \<le> len(words)\<close>.
\<close>

definition slice :: "'a list \<Rightarrow> int \<Rightarrow> int \<Rightarrow> panic + 'a list" where
  "slice xs lo hi =
     (if 0 \<le> lo \<and> lo \<le> hi \<and> hi \<le> int (length xs)
      then Inr (take (nat (hi - lo)) (drop (nat lo) xs))
      else Inl SliceBoundsOutOfRange)"

text \<open>The loop \<^verbatim>\<open>for i := 0; i+size <= len(words); i++\<close> with its accumulator.\<close>

function SplitWords_loop :: "int \<Rightarrow> string list \<Rightarrow> int \<Rightarrow> string list \<Rightarrow> panic + string list" where
  "SplitWords_loop sz words i sliptedWords =
     (if i + sz \<le> int (length words) then
        (case slice words i (i + sz) of
           Inl e \<Rightarrow> Inl e
         | Inr window \<Rightarrow>
             SplitWords_loop sz words (i + 1) (sliptedWords @ [Join window '' '']))
      else Inr sliptedWords)"
  by pat_completeness auto
termination
  by (relation "measure (\<lambda>(sz, words, i, acc). nat (int (length words) - sz - i + 1))") auto

declare SplitWords_loop.simps [simp del]

definition SplitWords :: "int \<Rightarrow> string \<Rightarrow> panic + string list" where
  "SplitWords sz sentence =
     (let words = Split sentence in
      if int (length words) \<le> sz then Inr [Join words '' '']
      else SplitWords_loop sz words 0 [])"

subsection \<open>Class and Classifier\<close>

record Class =
  Documents :: f64
  Words :: "string list"
  WordFreq :: "(string \<times> f64) list"

record Classifier =
  NSplit :: int
  Documents :: f64
  Classes :: "(string \<times> Class) list"
  UniqueWords :: "(string \<times> f64) list"

definition NewClassifier :: "int \<Rightarrow> Classifier" where
  "NewClassifier n =
     \<lparr>NSplit = n, Classifier.Documents = Fin 0, Classes = [], UniqueWords = []\<rparr>"

text \<open>
  \<^verbatim>\<open>m[k]++\<close> on a \<^verbatim>\<open>map[string]float64\<close>: a missing key reads as the zero value.
\<close>

definition incr :: "(string \<times> f64) list \<Rightarrow> string \<Rightarrow> (string \<times> f64) list" where
  "incr m k =
     AList.update k (fadd (case map_of m k of None \<Rightarrow> Fin 0 | Some v \<Rightarrow> v) (Fin 1)) m"

text \<open>
  A statement that updates \<^verbatim>\<open>c.Classes[class]\<close> through the pointer stored in the
  map; a missing key reads as the nil pointer, and writing through it panics.
\<close>

definition with_class ::
  "Classifier \<Rightarrow> string \<Rightarrow> (Class \<Rightarrow> Class) \<Rightarrow> panic + Classifier" where
  "with_class c class f =
     (case map_of (Classes c) class of
        None \<Rightarrow> Inl NilPointerDereference
      | Some data \<Rightarrow> Inr (c\<lparr>Classes := AList.update class (f data) (Classes c)\<rparr>))"

subsection \<open>Train\<close>

text \<open>The body of the loop over the n-grams of the sentence (lines 72 to 74).\<close>

definition Train_word :: "string \<Rightarrow> Classifier \<Rightarrow> string \<Rightarrow> panic + Classifier" where
  "Train_word class c word =
     (let c1 = c\<lparr>UniqueWords := incr (UniqueWords c) word\<rparr> in
      case with_class c1 class (\<lambda>d. d\<lparr>Words := Words d @ [word]\<rparr>) of
        Inl e \<Rightarrow> Inl e
      | Inr c2 \<Rightarrow> with_class c2 class (\<lambda>d. d\<lparr>WordFreq := incr (WordFreq d) word\<rparr>))"

fun Train_loop :: "string \<Rightarrow> Classifier \<Rightarrow> string list \<Rightarrow> panic + Classifier" where
  "Train_loop class c [] = Inr c"
| "Train_loop class c (word # words) =
     (case Train_word class c word of
        Inl e \<Rightarrow> Inl e
      | Inr c' \<Rightarrow> Train_loop class c' words)"

definition Train :: "Classifier \<Rightarrow> string \<Rightarrow> string \<Rightarrow> panic + Classifier" where
  "Train c class sentence =
     (let c1 = c\<lparr>Classifier.Documents := fadd (Classifier.Documents c) (Fin 1)\<rparr>;
          c2 = (case map_of (Classes c1) class of
                  None \<Rightarrow>
                    c1\<lparr>Classes :=
                         AList.update class
                           \<lparr>Class.Documents = Fin 0, Words = [], WordFreq = []\<rparr> (Classes c1)\<rparr>
                | Some _ \<Rightarrow> c1)
      in case with_class c2 class
                (\<lambda>d. d\<lparr>Class.Documents := fadd (Class.Documents d) (Fin 1)\<rparr>) of
           Inl e \<Rightarrow> Inl e
         | Inr c3 \<Rightarrow>
             (case SplitWords (NSplit c3) sentence of
                Inl e \<Rightarrow> Inl e
              | Inr words \<Rightarrow> Train_loop class c3 words))"

text \<open>A finite sequence of \<^verbatim>\<open>Train\<close> calls, each given as (class, sentence).\<close>

fun TrainAll :: "Classifier \<Rightarrow> (string \<times> string) list \<Rightarrow> panic + Classifier" where
  "TrainAll c [] = Inr c"
| "TrainAll c ((class, sentence) # calls) =
     (case Train c class sentence of
        Inl e \<Rightarrow> Inl e
      | Inr c' \<Rightarrow> TrainAll c' calls)"

subsection \<open>GetPrior and Classify\<close>

definition GetPrior :: "Classifier \<Rightarrow> string \<Rightarrow> panic + (f64 \<times> Classifier)" where
  "GetPrior c class =
     (case map_of (Classes c) class of
        None \<Rightarrow> Inl NilPointerDereference
      | Some data \<Rightarrow> Inr (fdiv (Class.Documents data) (Classifier.Documents c), c))"

text \<open>The smoothed conditional probability of one query n-gram (lines 98 to 103).\<close>

definition wProbability :: "Class \<Rightarrow> f64 \<Rightarrow> f64 \<Rightarrow> string \<Rightarrow> f64" where
  "wProbability data classWordCount uniqueWordCount word =
     (let frequency = (case map_of (WordFreq data) word of None \<Rightarrow> Fin 0 | Some v \<Rightarrow> v)
      in fdiv (fadd frequency (Fin 1)) (fadd classWordCount uniqueWordCount))"

text \<open>
  The first inner loop stores one probability per query n-gram in the map
  \<^verbatim>\<open>wProbabilities\<close>, keyed by the n-gram; the second multiplies the values of that map
  into the prior.
\<close>

fun wProbabilities_loop ::
  "Class \<Rightarrow> f64 \<Rightarrow> f64 \<Rightarrow> string list \<Rightarrow> (string \<times> f64) list \<Rightarrow> (string \<times> f64) list" where
  "wProbabilities_loop data cwc uwc [] wProbabilities = wProbabilities"
| "wProbabilities_loop data cwc uwc (word # words) wProbabilities =
     wProbabilities_loop data cwc uwc words
       (AList.update word (wProbability data cwc uwc word) wProbabilities)"

fun result_loop :: "f64 \<Rightarrow> (string \<times> f64) list \<Rightarrow> f64" where
  "result_loop result [] = result"
| "result_loop result ((word, value) # rest) = result_loop (fmul result value) rest"

text \<open>
  The loop over \<^verbatim>\<open>c.Classes\<close>: the entries still to visit, the receiver's state and
  the result map built so far.
\<close>

fun Classify_loop ::
  "Classifier \<Rightarrow> f64 \<Rightarrow> string list \<Rightarrow> (string \<times> Class) list \<Rightarrow> (string \<times> f64) list
     \<Rightarrow> panic + ((string \<times> f64) list \<times> Classifier)" where
  "Classify_loop c uniqueWordCount words [] cProbabilities = Inr (cProbabilities, c)"
| "Classify_loop c uniqueWordCount words ((class, data) # rest) cProbabilities =
     (case GetPrior c class of
        Inl e \<Rightarrow> Inl e
      | Inr (prior, c') \<Rightarrow>
          (let classWordCount = f64_of_len (Words data);
               wProbabilities =
                 wProbabilities_loop data classWordCount uniqueWordCount words [];
               result = result_loop prior wProbabilities
           in Classify_loop c' uniqueWordCount words rest
                (AList.update class result cProbabilities)))"

definition Classify :: "Classifier \<Rightarrow> string \<Rightarrow> panic + ((string \<times> f64) list \<times> Classifier)" where
  "Classify c sentence =
     (let uniqueWordCount = f64_of_len (UniqueWords c) in
      case SplitWords (NSplit c) sentence of
        Inl e \<Rightarrow> Inl e
      | Inr words \<Rightarrow> Classify_loop c uniqueWordCount words (Classes c) [])"

section \<open>Notions for stating the properties\<close>

text \<open>The \<^verbatim>\<open>float64\<close> sum of a sequence of values.\<close>

fun fsum :: "f64 list \<Rightarrow> f64" where
  "fsum [] = Fin 0"
| "fsum (x # xs) = fadd x (fsum xs)"

text \<open>
  The model of a class as \<^verbatim>\<open>Train\<close> finds it: the stored one, or the empty model
  that \<^verbatim>\<open>Train\<close> creates for a label it has not seen.
\<close>

definition class_before :: "Classifier \<Rightarrow> string \<Rightarrow> Class" where
  "class_before c class =
     (case map_of (Classes c) class of
        None \<Rightarrow> \<lparr>Class.Documents = Fin 0, Words = [], WordFreq = []\<rparr>
      | Some data \<Rightarrow> data)"

text \<open>
  A frequency map \<open>m\<close> counts a sequence of n-grams: every n-gram of the sequence is
  a key, its value is the number of its occurrences, and there is no other key.
\<close>

definition counts :: "(string \<times> f64) list \<Rightarrow> string list \<Rightarrow> bool" where
  "counts m ws \<longleftrightarrow>
     (\<forall>g. map_of m g =
        (if g \<in> set ws then Some (Fin (of_nat (count_list ws g))) else None))"

text \<open>The sums of the finite values of a frequency map and of the document counts.\<close>

definition vals_sum :: "(string \<times> f64) list \<Rightarrow> rat" where
  "vals_sum m = sum_list (map (\<lambda>(k, v). fin_val v) m)"

definition docs_sum :: "(string \<times> Class) list \<Rightarrow> rat" where
  "docs_sum cs = sum_list (map (\<lambda>(class, data). fin_val (Class.Documents data)) cs)"

text \<open>
  The invariant of a class model and of a classifier on which \<open>k\<close> calls of
  \<^verbatim>\<open>Train\<close> have returned, the classifier built with the size \<open>n0\<close>.
\<close>

definition wf_class :: "Class \<Rightarrow> bool" where
  "wf_class d \<longleftrightarrow>
     (\<exists>j::nat. Class.Documents d = Fin (of_nat j)) \<and>
     distinct (map fst (WordFreq d)) \<and>
     counts (WordFreq d) (Words d) \<and>
     vals_sum (WordFreq d) = of_nat (length (Words d))"

definition trained :: "int \<Rightarrow> nat \<Rightarrow> Classifier \<Rightarrow> bool" where
  "trained n0 k c \<longleftrightarrow>
     NSplit c = n0 \<and>
     Classifier.Documents c = Fin (of_nat k) \<and>
     distinct (map fst (Classes c)) \<and>
     (\<forall>(class, d) \<in> set (Classes c). wf_class d) \<and>
     docs_sum (Classes c) = of_nat k \<and>
     distinct (map fst (UniqueWords c)) \<and>
     (0 < k \<longrightarrow> 0 \<le> n0 \<and> UniqueWords c \<noteq> [])"

text \<open>
  The smoothed conditional probability of the n-gram \<open>g\<close> in a class, in exact
  arithmetic: the occurrences of \<open>g\<close> in the \<^verbatim>\<open>Words\<close> of the class plus one, divided
  by the length of \<^verbatim>\<open>Words\<close> plus the number of distinct keys of \<^verbatim>\<open>UniqueWords\<close>.
\<close>

definition smoothed :: "Classifier \<Rightarrow> Class \<Rightarrow> string \<Rightarrow> rat" where
  "smoothed c data g =
     (of_nat (count_list (Words data) g) + 1) /
     (of_nat (length (Words data)) + of_nat (card (fst ` set (UniqueWords c))))"

text \<open>
  The score of a class as the specification words it: starting from the prior, one
  factor for every n-gram of the tokenized query, in order, an n-gram that occurs twice
  giving two factors. It is compared with what \<^verbatim>\<open>Classify\<close> computes.
\<close>

fun Classify_score_spec :: "Classifier \<Rightarrow> Class \<Rightarrow> f64 \<Rightarrow> string list \<Rightarrow> f64" where
  "Classify_score_spec c data score [] = score"
| "Classify_score_spec c data score (g # gs) =
     Classify_score_spec c data (fmul score (Fin (smoothed c data g))) gs"

text \<open>
  Two classifiers for the examples: \<open>trained_ab\<close> after
  \<^verbatim>\<open>Train("x", "a b")\<close>, and \<open>trained_xy\<close> after \<^verbatim>\<open>Train("x", "a b")\<close>,
  \<^verbatim>\<open>Train("y", "b")\<close> and \<^verbatim>\<open>Train("x", "c")\<close>, both built with the size 1.
\<close>

definition trained_ab :: Classifier where
  "trained_ab =
     \<lparr>NSplit = 1, Documents = Fin 1,
      Classes = [(''x'', \<lparr>Class.Documents = Fin 1, Words = [''a'', ''b''],
                          WordFreq = [(''a'', Fin 1), (''b'', Fin 1)]\<rparr>)],
      UniqueWords = [(''a'', Fin 1), (''b'', Fin 1)]\<rparr>"

definition trained_xy :: Classifier where
  "trained_xy =
     \<lparr>NSplit = 1, Documents = Fin 3,
      Classes = [(''x'', \<lparr>Class.Documents = Fin 2, Words = [''a'', ''b'', ''c''],
                          WordFreq = [(''a'', Fin 1), (''b'', Fin 1), (''c'', Fin 1)]\<rparr>),
                 (''y'', \<lparr>Class.Documents = Fin 1, Words = [''b''],
                          WordFreq = [(''b'', Fin 1)]\<rparr>)],
      UniqueWords = [(''a'', Fin 1), (''b'', Fin 2), (''c'', Fin 1)]\<rparr>"

section \<open>The tokenizer\<close>

lemma split_from_nonempty: "split_from piece s \<noteq> []"
  by (induction s arbitrary: piece) auto

lemma Join_Cons: "ws \<noteq> [] \<Longrightarrow> Join (w # ws) sep = w @ sep @ Join ws sep"
  by (cases ws) auto

lemma Join_split_from: "Join (split_from piece s) '' '' = rev piece @ s"
  by (induction s arbitrary: piece) (auto simp: Join_Cons split_from_nonempty)

lemma Split_nonempty: "Split s \<noteq> []"
  by (simp add: Split_def split_from_nonempty)

lemma Join_Split: "Join (Split s) '' '' = s"
  by (simp add: Split_def Join_split_from)

lemma slice_window:
  "0 \<le> i \<Longrightarrow> 0 \<le> sz \<Longrightarrow> i + sz \<le> int (length xs) \<Longrightarrow>
   slice xs i (i + sz) = Inr (take (nat sz) (drop (nat i) xs))"
  by (simp add: slice_def)

text \<open>
  From position \<open>i\<close> on, the loop appends the windows that start at \<open>i\<close>, \<open>i + 1\<close>, ...
  up to the last position where a whole window fits.
\<close>

lemma SplitWords_loop_windows:
  "0 \<le> sz \<Longrightarrow> 0 \<le> i \<Longrightarrow>
   SplitWords_loop sz words i acc =
     Inr (acc @ map (\<lambda>j. Join (take (nat sz) (drop j words)) '' '')
                   [nat i ..< length words + 1 - nat sz])"
proof (induction sz words i acc rule: SplitWords_loop.induct)
  case (1 sz words i acc)
  show ?case
  proof (cases "i + sz \<le> int (length words)")
    case True
    then have lt: "nat i < length words + 1 - nat sz"
      using 1(2,3) by linarith
    have sl: "slice words i (i + sz) = Inr (take (nat sz) (drop (nat i) words))"
      using True 1(2,3) by (simp add: slice_window)
    have nxt: "nat (i + 1) = Suc (nat i)"
      using 1(3) by linarith
    have "SplitWords_loop sz words (i + 1)
            (acc @ [Join (take (nat sz) (drop (nat i) words)) '' '']) =
          Inr ((acc @ [Join (take (nat sz) (drop (nat i) words)) '' '']) @
               map (\<lambda>j. Join (take (nat sz) (drop j words)) '' '')
                   [nat (i + 1) ..< length words + 1 - nat sz])"
      using 1(1)[OF True sl] 1(2,3) by simp
    then show ?thesis
      using True sl lt nxt
      by (subst SplitWords_loop.simps) (simp add: upt_conv_Cons)
  next
    case False
    then have "length words + 1 - nat sz \<le> nat i"
      using 1(2,3) by linarith
    then show ?thesis
      using False by (subst SplitWords_loop.simps) simp
  qed
qed

lemma SplitWords_long:
  assumes "0 \<le> sz" "sz < int (length (Split sentence))"
  shows "SplitWords sz sentence =
     Inr (map (\<lambda>j. Join (take (nat sz) (drop j (Split sentence))) '' '')
              [0 ..< length (Split sentence) + 1 - nat sz])"
  using assms by (simp add: SplitWords_def Let_def SplitWords_loop_windows)

lemma SplitWords_short:
  "int (length (Split sentence)) \<le> sz \<Longrightarrow> SplitWords sz sentence = Inr [sentence]"
  by (simp add: SplitWords_def Let_def Join_Split)

text \<open>A negative size panics at the first slice expression, on every sentence.\<close>

lemma SplitWords_negative:
  assumes "sz < 0"
  shows "SplitWords sz sentence = Inl SliceBoundsOutOfRange"
proof -
  have "\<not> int (length (Split sentence)) \<le> sz" using assms by linarith
  moreover have "SplitWords_loop sz (Split sentence) 0 [] = Inl SliceBoundsOutOfRange"
    using assms by (subst SplitWords_loop.simps) (simp add: slice_def)
  ultimately show ?thesis by (simp add: SplitWords_def Let_def)
qed

text \<open>With a size that is not negative the tokenizer returns, and returns a gram.\<close>

lemma SplitWords_succeeds:
  assumes "0 \<le> sz"
  shows "\<exists>words. SplitWords sz sentence = Inr words \<and> words \<noteq> []"
proof (cases "int (length (Split sentence)) \<le> sz")
  case True
  then show ?thesis by (simp add: SplitWords_short)
next
  case False
  then have "0 < length (Split sentence) + 1 - nat sz" using assms by linarith
  then show ?thesis using False assms by (simp add: SplitWords_long)
qed

text \<open>
  Claim C3. For a size of at least one and a sentence with more raw tokens than the
  size (the tokens being the pieces between single spaces, empty pieces kept),
  \<open>SplitWords\<close> returns \<open>tokenCount - size + 1\<close> windows from left to right; the
  window at position \<open>i\<close> is the \<open>size\<close> tokens from token \<open>i\<close> on, joined by single
  spaces. The two examples of the function's comment hold.
\<close>

theorem SplitWords_windows:
  "(\<forall>sz sentence. 1 \<le> sz \<and> sz < int (length (Split sentence)) \<longrightarrow>
      (\<exists>ws. SplitWords sz sentence = Inr ws \<and>
            int (length ws) = int (length (Split sentence)) - sz + 1 \<and>
            (\<forall>i<length ws. ws ! i = Join (take (nat sz) (drop i (Split sentence))) '' ''))) \<and>
   SplitWords 1 ''this outputs words'' = Inr [''this'', ''outputs'', ''words''] \<and>
   SplitWords 2 ''this outputs words'' = Inr [''this outputs'', ''outputs words'']"
proof (intro conjI allI impI)
  fix sz :: int and sentence :: string
  assume h: "1 \<le> sz \<and> sz < int (length (Split sentence))"
  let ?ws = "map (\<lambda>j. Join (take (nat sz) (drop j (Split sentence))) '' '')
               [0 ..< length (Split sentence) + 1 - nat sz]"
  have "SplitWords sz sentence = Inr ?ws"
    using h by (simp add: SplitWords_long)
  moreover have "int (length ?ws) = int (length (Split sentence)) - sz + 1"
    using h by simp linarith
  moreover have "\<forall>i<length ?ws. ?ws ! i = Join (take (nat sz) (drop i (Split sentence))) '' ''"
    by simp
  ultimately show "\<exists>ws. SplitWords sz sentence = Inr ws \<and>
            int (length ws) = int (length (Split sentence)) - sz + 1 \<and>
            (\<forall>i<length ws. ws ! i = Join (take (nat sz) (drop i (Split sentence))) '' '')"
    by blast
next
  show "SplitWords 1 ''this outputs words'' = Inr [''this'', ''outputs'', ''words'']"
    by (simp add: SplitWords_long Split_def)
next
  show "SplitWords 2 ''this outputs words'' = Inr [''this outputs'', ''outputs words'']"
    by (simp add: SplitWords_long Split_def upt_conv_Cons)
qed

theorem SplitWords_windows_witness:
  "(1::int) \<le> 2 \<and> 2 < int (length (Split ''a b c d'')) \<and>
   (\<exists>ws. SplitWords 2 ''a b c d'' = Inr ws \<and> length ws = 3 \<and>
         ws ! 0 = ''a b'' \<and> ws ! 1 = ''b c'' \<and> ws ! 2 = ''c d'')"
proof -
  have h: "(1::int) \<le> 2 \<and> 2 < int (length (Split ''a b c d''))"
    by (simp add: Split_def)
  from SplitWords_windows have
    "1 \<le> (2::int) \<and> 2 < int (length (Split ''a b c d'')) \<longrightarrow>
      (\<exists>ws. SplitWords 2 ''a b c d'' = Inr ws \<and>
            int (length ws) = int (length (Split ''a b c d'')) - 2 + 1 \<and>
            (\<forall>i<length ws. ws ! i = Join (take (nat 2) (drop i (Split ''a b c d''))) '' ''))"
    by blast
  with h obtain ws where ws: "SplitWords 2 ''a b c d'' = Inr ws"
    and len: "int (length ws) = int (length (Split ''a b c d'')) - 2 + 1"
    and nth: "\<forall>i<length ws. ws ! i = Join (take (nat 2) (drop i (Split ''a b c d''))) '' ''"
    by blast
  have l3: "length ws = 3" using len by (simp add: Split_def)
  have "ws ! 0 = ''a b''" "ws ! 1 = ''b c''" "ws ! 2 = ''c d''"
    using nth l3 by (simp_all add: Split_def)
  with h ws l3 show ?thesis by blast
qed

text \<open>
  Claim C4. For a size of at least one and a sentence with at most that many raw
  tokens, \<open>SplitWords\<close> returns one element: the tokens of the sentence joined by
  single spaces, which is the sentence itself.
\<close>

theorem SplitWords_whole_sentence:
  "1 \<le> sz \<Longrightarrow> int (length (Split sentence)) \<le> sz \<Longrightarrow>
   SplitWords sz sentence = Inr [Join (Split sentence) '' ''] \<and>
   Join (Split sentence) '' '' = sentence"
  by (simp add: SplitWords_short Join_Split)

theorem SplitWords_whole_sentence_witness:
  "(1::int) \<le> 3 \<and> int (length (Split ''a  b'')) \<le> 3 \<and>
   SplitWords 3 ''a  b'' = Inr [''a  b''] \<and> Join (Split ''a  b'') '' '' = ''a  b''"
proof -
  have h1: "(1::int) \<le> 3" by simp
  have h2: "int (length (Split ''a  b'')) \<le> 3" by (simp add: Split_def)
  show ?thesis
    using SplitWords_whole_sentence [OF h1 h2] h2 by simp
qed

section \<open>Training\<close>

subsection \<open>Train in closed form\<close>

lemma with_class_Some:
  "map_of (Classes c) class = Some d \<Longrightarrow>
   with_class c class f = Inr (c\<lparr>Classes := AList.update class (f d) (Classes c)\<rparr>)"
  by (simp add: with_class_def)

lemma Train_word_Some:
  assumes "map_of (Classes c) class = Some d"
  shows "Train_word class c word =
     Inr (c\<lparr>UniqueWords := incr (UniqueWords c) word,
            Classes := AList.update class
              (d\<lparr>Words := Words d @ [word], WordFreq := incr (WordFreq d) word\<rparr>) (Classes c)\<rparr>)"
  using assms by (simp add: Train_word_def with_class_def AList.update_conv')

lemma Train_loop_Some:
  "map_of (Classes c) class = Some d \<Longrightarrow>
   Train_loop class c words =
     Inr (c\<lparr>UniqueWords := foldl incr (UniqueWords c) words,
            Classes := AList.update class
              (d\<lparr>Words := Words d @ words, WordFreq := foldl incr (WordFreq d) words\<rparr>)
              (Classes c)\<rparr>)"
proof (induction words arbitrary: c d)
  case Nil
  then show ?case by (simp add: AList.update_triv)
next
  case (Cons word words)
  let ?d1 = "d\<lparr>Words := Words d @ [word], WordFreq := incr (WordFreq d) word\<rparr>"
  let ?c1 = "c\<lparr>UniqueWords := incr (UniqueWords c) word,
              Classes := AList.update class ?d1 (Classes c)\<rparr>"
  have s: "Train_word class c word = Inr ?c1"
    using Cons.prems by (rule Train_word_Some)
  have m: "map_of (Classes ?c1) class = Some ?d1"
    by (simp add: AList.update_conv')
  show ?case
    using Cons.IH [OF m] s by simp
qed

lemma Train_eq:
  assumes "SplitWords (NSplit c) sentence = Inr words"
  shows "Train c class sentence =
     Inr (c\<lparr>Classifier.Documents := fadd (Classifier.Documents c) (Fin 1),
            UniqueWords := foldl incr (UniqueWords c) words,
            Classes := AList.update class
              ((class_before c class)
                 \<lparr>Class.Documents := fadd (Class.Documents (class_before c class)) (Fin 1),
                  Words := Words (class_before c class) @ words,
                  WordFreq := foldl incr (WordFreq (class_before c class)) words\<rparr>)
              (Classes c)\<rparr>)"
proof (cases "map_of (Classes c) class")
  case None
  then show ?thesis
    using assms
    by (simp add: Train_def Let_def class_before_def with_class_def AList.update_conv' Train_loop_Some)
next
  case (Some d)
  then show ?thesis
    using assms
    by (simp add: Train_def Let_def class_before_def with_class_def AList.update_conv' Train_loop_Some)
qed

lemma Train_panics:
  assumes "SplitWords (NSplit c) sentence = Inl e"
  shows "Train c class sentence = Inl e"
  using assms
  by (cases "map_of (Classes c) class")
     (simp_all add: Train_def Let_def with_class_def AList.update_conv')

subsection \<open>Association lists\<close>

lemma set_update_subset: "set (AList.update k v al) \<subseteq> insert (k, v) (set al)"
  by (induction al) auto

lemma update_fresh: "k \<notin> fst ` set al \<Longrightarrow> AList.update k v al = al @ [(k, v)]"
  by (induction al) auto

lemma sum_update_Some:
  fixes h :: "'v \<Rightarrow> rat"
  shows "map_of al k = Some d \<Longrightarrow>
   sum_list (map (\<lambda>(k, v). h v) (AList.update k v al)) =
     sum_list (map (\<lambda>(k, v). h v) al) - h d + h v"
  by (induction al) (auto split: if_splits)

lemma sum_update_None:
  fixes h :: "'v \<Rightarrow> rat"
  shows "map_of al k = None \<Longrightarrow>
   sum_list (map (\<lambda>(k, v). h v) (AList.update k v al)) =
     sum_list (map (\<lambda>(k, v). h v) al) + h v"
  by (induction al) (auto split: if_splits)

subsection \<open>Counting maps\<close>

lemma counts_Nil: "counts [] []"
  by (simp add: counts_def)

lemma counts_incr: "counts m ws \<Longrightarrow> counts (incr m g) (ws @ [g])"
  by (auto simp: counts_def incr_def AList.update_conv')

lemma counts_foldl: "counts m ws \<Longrightarrow> counts (foldl incr m gs) (ws @ gs)"
proof (induction gs arbitrary: m ws)
  case Nil
  then show ?case by simp
next
  case (Cons g gs)
  from Cons.IH [OF counts_incr [OF Cons.prems, of g]] show ?case by simp
qed

lemma distinct_incr: "distinct (map fst m) \<Longrightarrow> distinct (map fst (incr m g))"
  by (simp add: incr_def AList.distinct_update)

lemma distinct_foldl_incr: "distinct (map fst m) \<Longrightarrow> distinct (map fst (foldl incr m gs))"
  by (induction gs arbitrary: m) (simp_all add: distinct_incr)

lemma foldl_incr_nonempty: "gs \<noteq> [] \<or> m \<noteq> [] \<Longrightarrow> foldl incr m gs \<noteq> []"
  by (induction gs arbitrary: m) (auto simp: incr_def)

lemma vals_sum_incr:
  assumes "counts m ws"
  shows "vals_sum (incr m g) = vals_sum m + 1"
proof (cases "map_of m g")
  case None
  then show ?thesis
    by (simp add: vals_sum_def incr_def sum_update_None)
next
  case (Some v)
  then obtain r where "v = Fin r"
    using assms by (auto simp: counts_def split: if_splits)
  then show ?thesis
    using Some by (simp add: vals_sum_def incr_def sum_update_Some)
qed

lemma vals_sum_foldl:
  "counts m ws \<Longrightarrow> vals_sum (foldl incr m gs) = vals_sum m + of_nat (length gs)"
proof (induction gs arbitrary: m ws)
  case Nil
  then show ?case by simp
next
  case (Cons g gs)
  from Cons.IH [OF counts_incr [OF Cons.prems, of g]] vals_sum_incr [OF Cons.prems, of g]
  show ?case by simp
qed

lemma counts_entry:
  assumes "counts m ws" "distinct (map fst m)" "(g, v) \<in> set m"
  shows "v = Fin (of_nat (count_list ws g))"
proof -
  have "map_of m g = Some v" using assms(2,3) by simp
  then show ?thesis using assms(1) by (auto simp: counts_def split: if_splits)
qed

lemma fsum_fin:
  "\<forall>x \<in> set xs. \<exists>r. x = Fin r \<Longrightarrow> fsum xs = Fin (sum_list (map fin_val xs))"
  by (induction xs) auto

subsection \<open>The invariant of training\<close>

lemma wf_class_new: "wf_class \<lparr>Class.Documents = Fin 0, Words = [], WordFreq = []\<rparr>"
proof -
  have "Fin 0 = Fin (of_nat 0)" by simp
  then show ?thesis
    unfolding wf_class_def by (auto simp: counts_Nil vals_sum_def simp del: of_nat_0)
qed

lemma wf_class_step:
  assumes "wf_class d"
  shows "wf_class (d\<lparr>Class.Documents := fadd (Class.Documents d) (Fin 1),
                    Words := Words d @ gs,
                    WordFreq := foldl incr (WordFreq d) gs\<rparr>)"
proof -
  from assms obtain j :: nat where j: "Class.Documents d = Fin (of_nat j)"
    and dist: "distinct (map fst (WordFreq d))"
    and cnt: "counts (WordFreq d) (Words d)"
    and sm: "vals_sum (WordFreq d) = of_nat (length (Words d))"
    by (auto simp: wf_class_def)
  have "fadd (Class.Documents d) (Fin 1) = Fin (of_nat (Suc j))"
    using j by simp
  then have "\<exists>j'::nat. fadd (Class.Documents d) (Fin 1) = Fin (of_nat j')"
    by blast
  then show ?thesis
    using dist cnt sm
    by (simp add: wf_class_def distinct_foldl_incr counts_foldl vals_sum_foldl [OF cnt])
qed

lemma wf_class_before:
  assumes "\<forall>(class, d) \<in> set (Classes c). wf_class d"
  shows "wf_class (class_before c class)"
proof (cases "map_of (Classes c) class")
  case None
  then show ?thesis by (simp add: class_before_def wf_class_new)
next
  case (Some d)
  then have "(class, d) \<in> set (Classes c)" by (rule map_of_SomeD)
  then show ?thesis using assms Some by (auto simp: class_before_def)
qed

lemma trained_New: "trained n 0 (NewClassifier n)"
  by (simp add: trained_def NewClassifier_def docs_sum_def)

lemma trained_Train:
  assumes tr: "Train c class sentence = Inr c'" and inv: "trained n0 k c"
  shows "trained n0 (Suc k) c'"
proof -
  have n0: "NSplit c = n0" using inv by (simp add: trained_def)
  have nonneg: "0 \<le> n0"
  proof (rule ccontr)
    assume "\<not> 0 \<le> n0"
    then have "SplitWords (NSplit c) sentence = Inl SliceBoundsOutOfRange"
      using n0 by (simp add: SplitWords_negative)
    then show False using tr by (simp add: Train_panics)
  qed
  then obtain words where sw: "SplitWords (NSplit c) sentence = Inr words" and ne: "words \<noteq> []"
    using SplitWords_succeeds [of n0 sentence] n0 by auto
  let ?d0 = "class_before c class"
  let ?d1 = "?d0\<lparr>Class.Documents := fadd (Class.Documents ?d0) (Fin 1),
                  Words := Words ?d0 @ words,
                  WordFreq := foldl incr (WordFreq ?d0) words\<rparr>"
  have c': "c' = c\<lparr>Classifier.Documents := fadd (Classifier.Documents c) (Fin 1),
            UniqueWords := foldl incr (UniqueWords c) words,
            Classes := AList.update class ?d1 (Classes c)\<rparr>"
    using Train_eq [OF sw, of "class"] tr by simp
  have wfs: "\<forall>(class, d) \<in> set (Classes c). wf_class d"
    using inv by (simp add: trained_def)
  have wf0: "wf_class ?d0" using wfs by (rule wf_class_before)
  have wf1: "wf_class ?d1" using wf0 by (rule wf_class_step)
  have docs: "Classifier.Documents c' = Fin (of_nat (Suc k))"
    using inv c' by (simp add: trained_def)
  have dist: "distinct (map fst (Classes c'))"
    using inv c' by (simp add: trained_def AList.distinct_update)
  have wfs': "\<forall>(class, d) \<in> set (Classes c'). wf_class d"
    using wfs wf1 set_update_subset [of "class" ?d1 "Classes c"] c' by auto
  obtain j :: nat where j: "Class.Documents ?d0 = Fin (of_nat j)"
    using wf0 by (auto simp: wf_class_def)
  have "docs_sum (Classes c') = docs_sum (Classes c) + 1"
  proof (cases "map_of (Classes c) class")
    case None
    then show ?thesis
      using c' by (simp add: docs_sum_def sum_update_None class_before_def)
  next
    case (Some d)
    then show ?thesis
      using c' j by (simp add: docs_sum_def sum_update_Some class_before_def)
  qed
  then have ds: "docs_sum (Classes c') = of_nat (Suc k)"
    using inv by (simp add: trained_def)
  have du: "distinct (map fst (UniqueWords c'))"
    using inv c' by (simp add: trained_def distinct_foldl_incr)
  have un: "UniqueWords c' \<noteq> []"
    using c' ne by (simp add: foldl_incr_nonempty)
  show ?thesis
    unfolding trained_def using n0 c' docs dist wfs' ds du un nonneg by simp
qed

lemma trained_TrainAll:
  "TrainAll c calls = Inr c' \<Longrightarrow> trained n0 k c \<Longrightarrow> trained n0 (k + length calls) c'"
proof (induction calls arbitrary: c k)
  case Nil
  then show ?case by simp
next
  case (Cons call calls)
  obtain "class" sentence where call: "call = (class, sentence)" by (cases call)
  from Cons.prems(1) call obtain c1 where
    t1: "Train c class sentence = Inr c1" and rest: "TrainAll c1 calls = Inr c'"
    by (auto split: sum.splits)
  from Cons.IH [OF rest trained_Train [OF t1 Cons.prems(2)]]
  show ?case by simp
qed

lemma trained_reachable:
  "TrainAll (NewClassifier n) calls = Inr c \<Longrightarrow> trained n (length calls) c"
  using trained_TrainAll [OF _ trained_New, of n calls c] by simp

lemma wf_class_vals_fin:
  assumes "wf_class d"
  shows "\<forall>x \<in> set (map snd (WordFreq d)). \<exists>r. x = Fin r"
proof
  fix x assume "x \<in> set (map snd (WordFreq d))"
  then obtain g where "(g, x) \<in> set (WordFreq d)" by auto
  then show "\<exists>r. x = Fin r"
    using assms counts_entry [of "WordFreq d" "Words d" g x] by (auto simp: wf_class_def)
qed

subsection \<open>Train returns\<close>

lemma Train_NSplit:
  assumes "Train c class sentence = Inr c'"
  shows "NSplit c' = NSplit c"
proof (cases "SplitWords (NSplit c) sentence")
  case (Inl e)
  then show ?thesis using assms by (simp add: Train_panics)
next
  case (Inr words)
  then show ?thesis using assms by (auto simp: Train_eq)
qed

text \<open>
  With a size that is not negative, every finite sequence of \<^verbatim>\<open>Train\<close> calls returns.
\<close>

lemma TrainAll_succeeds:
  "0 \<le> NSplit c \<Longrightarrow> \<exists>c'. TrainAll c calls = Inr c'"
proof (induction calls arbitrary: c)
  case Nil
  then show ?case by simp
next
  case (Cons call calls)
  obtain "class" sentence where call: "call = (class, sentence)" by (cases call)
  obtain words where "SplitWords (NSplit c) sentence = Inr words"
    using SplitWords_succeeds [OF Cons.prems] by blast
  then obtain c1 where t: "Train c class sentence = Inr c1"
    by (simp add: Train_eq)
  then have "0 \<le> NSplit c1" using Cons.prems by (simp add: Train_NSplit)
  from Cons.IH [OF this] t call show ?case by simp
qed

text \<open>
  Claim C2, amended. On a classifier with a size of at least one, \<^verbatim>\<open>Train\<close>
  succeeds for every class label and every sentence; it adds one to \<^verbatim>\<open>Documents\<close>
  and one to the \<^verbatim>\<open>Documents\<close> of the class (counted from zero for a new label).
  The empty sentence tokenizes to one n-gram, the empty string: \<^verbatim>\<open>Train\<close> counts it
  in \<^verbatim>\<open>UniqueWords\<close>, appends it to the \<^verbatim>\<open>Words\<close> of the class and counts it in
  the \<^verbatim>\<open>WordFreq\<close> of the class.
\<close>

theorem Train_succeeds:
  assumes "1 \<le> NSplit c"
  shows "\<exists>c' d'. Train c class sentence = Inr c' \<and>
           Classifier.Documents c' = fadd (Classifier.Documents c) (Fin 1) \<and>
           map_of (Classes c') class = Some d' \<and>
           Class.Documents d' = fadd (Class.Documents (class_before c class)) (Fin 1) \<and>
           (sentence = [] \<longrightarrow>
              UniqueWords c' = incr (UniqueWords c) [] \<and>
              Words d' = Words (class_before c class) @ [[]] \<and>
              WordFreq d' = incr (WordFreq (class_before c class)) [])"
proof -
  from assms obtain words where sw: "SplitWords (NSplit c) sentence = Inr words"
    using SplitWords_succeeds [of "NSplit c" sentence] by auto
  have e: "sentence = [] \<Longrightarrow> words = [[]]"
    using sw assms by (simp add: SplitWords_short Split_def)
  show ?thesis
    using e by (auto simp: Train_eq [OF sw] AList.update_conv')
qed

theorem Train_succeeds_witness:
  "1 \<le> NSplit trained_ab \<and>
   (\<exists>c' d'. Train trained_ab ''x'' '''' = Inr c' \<and>
       Classifier.Documents c' = Fin 2 \<and>
       map_of (Classes c') ''x'' = Some d' \<and>
       Class.Documents d' = Fin 2 \<and>
       UniqueWords c' = [(''a'', Fin 1), (''b'', Fin 1), ('''', Fin 1)] \<and>
       Words d' = [''a'', ''b'', ''''] \<and>
       WordFreq d' = [(''a'', Fin 1), (''b'', Fin 1), ('''', Fin 1)])"
proof -
  have h: "1 \<le> NSplit trained_ab" by (simp add: trained_ab_def)
  from Train_succeeds [OF h, of "''x''" "''''"] show ?thesis
    using h by (simp add: trained_ab_def class_before_def incr_def)
qed

text \<open>
  The claim as first stated, that the empty sentence adds no n-gram, fails:
  \<^verbatim>\<open>strings.Split("", " ")\<close> is the one-element slice holding the empty string, so
  after \<^verbatim>\<open>Train("x", "")\<close> on a new classifier the vocabulary, the word sequence and
  the frequency map of the class each hold the empty n-gram.
\<close>

theorem Train_empty_sentence_counterexample:
  "Classes (NewClassifier 1) = [] \<and> UniqueWords (NewClassifier 1) = [] \<and>
   SplitWords 1 '''' = Inr [''''] \<and>
   Train (NewClassifier 1) ''x'' '''' =
     Inr \<lparr>NSplit = 1, Documents = Fin 1,
          Classes = [(''x'', \<lparr>Class.Documents = Fin 1, Words = [''''],
                              WordFreq = [('''', Fin 1)]\<rparr>)],
          UniqueWords = [('''', Fin 1)]\<rparr>"
  by code_simp

section \<open>Invariants of a trained classifier\<close>

text \<open>
  Claim C5. After a finite sequence of \<^verbatim>\<open>Train\<close> calls on a new classifier,
  \<^verbatim>\<open>Documents\<close> is the number of calls, and it is the sum of the \<^verbatim>\<open>Documents\<close>
  fields over the entries of \<^verbatim>\<open>Classes\<close>.
\<close>

theorem TrainAll_documents:
  assumes "TrainAll (NewClassifier n) calls = Inr c"
  shows "Classifier.Documents c = Fin (of_nat (length calls)) \<and>
         fsum (map (\<lambda>(class, data). Class.Documents data) (Classes c)) = Classifier.Documents c"
proof -
  have inv: "trained n (length calls) c" using assms by (rule trained_reachable)
  then have d: "Classifier.Documents c = Fin (of_nat (length calls))"
    by (simp add: trained_def)
  have "\<forall>x \<in> set (map (\<lambda>(class, data). Class.Documents data) (Classes c)). \<exists>r. x = Fin r"
    using inv by (fastforce simp: trained_def wf_class_def)
  then have "fsum (map (\<lambda>(class, data). Class.Documents data) (Classes c)) =
     Fin (sum_list (map fin_val (map (\<lambda>(class, data). Class.Documents data) (Classes c))))"
    by (rule fsum_fin)
  also have "map fin_val (map (\<lambda>(class, data). Class.Documents data) (Classes c)) =
     map (\<lambda>(class, data). fin_val (Class.Documents data)) (Classes c)"
    by (simp add: case_prod_unfold)
  also have "sum_list \<dots> = of_nat (length calls)"
    using inv by (simp add: trained_def docs_sum_def)
  finally show ?thesis using d by simp
qed

theorem TrainAll_documents_witness:
  "TrainAll (NewClassifier 1) [(''x'', ''a b''), (''y'', ''b c''), (''x'', [])] =
     Inr \<lparr>NSplit = 1, Documents = Fin 3,
          Classes =
            [(''x'', \<lparr>Class.Documents = Fin 2, Words = [''a'', ''b'', []],
                     WordFreq = [(''a'', Fin 1), (''b'', Fin 1), ([], Fin 1)]\<rparr>),
             (''y'', \<lparr>Class.Documents = Fin 1, Words = [''b'', ''c''],
                     WordFreq = [(''b'', Fin 1), (''c'', Fin 1)]\<rparr>)],
          UniqueWords = [(''a'', Fin 1), (''b'', Fin 2), (''c'', Fin 1), ([], Fin 1)]\<rparr> \<and>
   fsum [Fin 2, Fin 1] = Fin 3"
proof -
  have h: "TrainAll (NewClassifier 1) [(''x'', ''a b''), (''y'', ''b c''), (''x'', [])] =
     Inr \<lparr>NSplit = 1, Documents = Fin 3,
          Classes =
            [(''x'', \<lparr>Class.Documents = Fin 2, Words = [''a'', ''b'', []],
                     WordFreq = [(''a'', Fin 1), (''b'', Fin 1), ([], Fin 1)]\<rparr>),
             (''y'', \<lparr>Class.Documents = Fin 1, Words = [''b'', ''c''],
                     WordFreq = [(''b'', Fin 1), (''c'', Fin 1)]\<rparr>)],
          UniqueWords = [(''a'', Fin 1), (''b'', Fin 2), (''c'', Fin 1), ([], Fin 1)]\<rparr>"
    by code_simp
  from TrainAll_documents [OF h] show ?thesis using h by simp
qed

text \<open>
  Claim C6. After a finite sequence of \<^verbatim>\<open>Train\<close> calls on a new classifier, in every
  class the length of \<^verbatim>\<open>Words\<close> is the sum of the values of \<^verbatim>\<open>WordFreq\<close>.
\<close>

theorem TrainAll_word_counts:
  assumes "TrainAll (NewClassifier n) calls = Inr c"
  shows "\<forall>(class, data) \<in> set (Classes c).
           fsum (map snd (WordFreq data)) = f64_of_len (Words data)"
proof -
  have inv: "trained n (length calls) c" using assms by (rule trained_reachable)
  {
    fix "class" data assume "(class, data) \<in> set (Classes c)"
    then have wf: "wf_class data" using inv by (auto simp: trained_def)
    have "fsum (map snd (WordFreq data)) = Fin (sum_list (map fin_val (map snd (WordFreq data))))"
      using wf_class_vals_fin [OF wf] by (rule fsum_fin)
    also have "map fin_val (map snd (WordFreq data)) = map (\<lambda>(k, v). fin_val v) (WordFreq data)"
      by (simp add: case_prod_unfold)
    also have "sum_list \<dots> = of_nat (length (Words data))"
      using wf by (simp add: wf_class_def vals_sum_def)
    finally have "fsum (map snd (WordFreq data)) = f64_of_len (Words data)"
      by (simp add: f64_of_len_def)
  }
  then show ?thesis by auto
qed

theorem TrainAll_word_counts_witness:
  "TrainAll (NewClassifier 1) [(''x'', ''a b a''), (''y'', ''b'')] =
     Inr \<lparr>NSplit = 1, Documents = Fin 2,
          Classes =
            [(''x'', \<lparr>Class.Documents = Fin 1, Words = [''a'', ''b'', ''a''],
                     WordFreq = [(''a'', Fin 2), (''b'', Fin 1)]\<rparr>),
             (''y'', \<lparr>Class.Documents = Fin 1, Words = [''b''],
                     WordFreq = [(''b'', Fin 1)]\<rparr>)],
          UniqueWords = [(''a'', Fin 2), (''b'', Fin 2)]\<rparr> \<and>
   fsum [Fin 2, Fin 1] = f64_of_len [''a'', ''b'', ''a''] \<and>
   fsum [Fin 1] = f64_of_len [''b'']"
proof -
  have h: "TrainAll (NewClassifier 1) [(''x'', ''a b a''), (''y'', ''b'')] =
     Inr \<lparr>NSplit = 1, Documents = Fin 2,
          Classes =
            [(''x'', \<lparr>Class.Documents = Fin 1, Words = [''a'', ''b'', ''a''],
                     WordFreq = [(''a'', Fin 2), (''b'', Fin 1)]\<rparr>),
             (''y'', \<lparr>Class.Documents = Fin 1, Words = [''b''],
                     WordFreq = [(''b'', Fin 1)]\<rparr>)],
          UniqueWords = [(''a'', Fin 2), (''b'', Fin 2)]\<rparr>"
    by code_simp
  from TrainAll_word_counts [OF h]
  have "fsum [Fin 2, Fin 1] = f64_of_len [''a'', ''b'', ''a''] \<and>
        fsum [Fin 1] = f64_of_len [''b'']"
    by (simp add: f64_of_len_def)
  with h show ?thesis by blast
qed

section \<open>Classification\<close>

subsection \<open>The receiver after GetPrior and Classify\<close>

lemma GetPrior_state: "GetPrior c class = Inr (p, c') \<Longrightarrow> c' = c"
  by (auto simp: GetPrior_def split: option.splits)

lemma Classify_loop_state:
  "Classify_loop c uwc words rest acc = Inr (m, c') \<Longrightarrow> c' = c"
proof (induction rest arbitrary: c acc)
  case Nil
  then show ?case by simp
next
  case (Cons entry rest)
  obtain "class" data where e: "entry = (class, data)" by (cases entry)
  from Cons.prems e obtain prior c1 where
    g: "GetPrior c class = Inr (prior, c1)" and
    l: "\<exists>acc'. Classify_loop c1 uwc words rest acc' = Inr (m, c')"
    by (auto simp: Let_def split: sum.splits prod.splits)
  from g have "c1 = c" by (rule GetPrior_state)
  with l Cons.IH show ?case by blast
qed

text \<open>
  Claim C10. \<^verbatim>\<open>GetPrior\<close> and \<^verbatim>\<open>Classify\<close> leave the classifier as it was: whenever
  a call returns, the receiver's state after the call, with all its fields \<^verbatim>\<open>NSplit\<close>,
  \<^verbatim>\<open>Documents\<close>, \<^verbatim>\<open>Classes\<close> (every class with its \<^verbatim>\<open>Documents\<close>, \<^verbatim>\<open>Words\<close> and
  \<^verbatim>\<open>WordFreq\<close>) and \<^verbatim>\<open>UniqueWords\<close>, is the state before the call. A call that
  panics ends the program and has no state after it.
\<close>

theorem read_only_methods:
  "(\<forall>prior c'. GetPrior c class = Inr (prior, c') \<longrightarrow> c' = c) \<and>
   (\<forall>probabilities c'. Classify c sentence = Inr (probabilities, c') \<longrightarrow> c' = c)"
  by (auto simp: Classify_def Let_def split: sum.splits dest: GetPrior_state Classify_loop_state)

theorem read_only_methods_witness:
  "(\<exists>prior. GetPrior trained_ab ''x'' = Inr (prior, trained_ab)) \<and>
   (\<exists>probabilities. Classify trained_ab ''a a'' = Inr (probabilities, trained_ab))"
proof -
  have "GetPrior trained_ab ''x'' = Inr (Fin 1, trained_ab)" by code_simp
  then have g: "\<exists>prior c'. GetPrior trained_ab ''x'' = Inr (prior, c')" by blast
  have "Classify trained_ab ''a a'' = Inr ([(''x'', Fin (1 / 2))], trained_ab)" by code_simp
  then have k: "\<exists>probabilities c'. Classify trained_ab ''a a'' = Inr (probabilities, c')" by blast
  from read_only_methods [of trained_ab "''x''" "''a a''"] g k show ?thesis by blast
qed

subsection \<open>A classifier without classes\<close>

text \<open>
  Claim C9. On a classifier without classes, \<^verbatim>\<open>Classify\<close> returns the empty map for
  every query sentence and does not panic. The size of the classifier must not be
  negative, which holds for every size the data model admits (at least 1): with a
  negative size the tokenizer panics before the loop over the classes starts.
\<close>

theorem Classify_no_classes:
  assumes "0 \<le> NSplit c" and "Classes c = []"
  shows "Classify c sentence = Inr ([], c)"
proof -
  obtain words where "SplitWords (NSplit c) sentence = Inr words"
    using SplitWords_succeeds [OF assms(1)] by blast
  then show ?thesis using assms(2) by (simp add: Classify_def Let_def)
qed

theorem Classify_no_classes_witness:
  "(0::int) \<le> NSplit (NewClassifier 1) \<and> Classes (NewClassifier 1) = [] \<and>
   Classify (NewClassifier 1) ''nao achei o filme ruim'' = Inr ([], NewClassifier 1)"
proof -
  have h1: "(0::int) \<le> NSplit (NewClassifier 1)" by (simp add: NewClassifier_def)
  have h2: "Classes (NewClassifier 1) = []" by (simp add: NewClassifier_def)
  from Classify_no_classes [OF h1 h2] h1 h2 show ?thesis by blast
qed

subsection \<open>Classify in closed form\<close>

lemma GetPrior_Some:
  "map_of (Classes c) class = Some data \<Longrightarrow>
   GetPrior c class = Inr (fdiv (Class.Documents data) (Classifier.Documents c), c)"
  by (simp add: GetPrior_def)

lemma wp_loop_entries:
  "(g, v) \<in> set (wProbabilities_loop data cwc uwc words acc) \<Longrightarrow>
   (g, v) \<in> set acc \<or> v = wProbability data cwc uwc g"
proof (induction words arbitrary: acc)
  case Nil
  then show ?case by simp
next
  case (Cons word words)
  from Cons.IH [of "AList.update word (wProbability data cwc uwc word) acc"] Cons.prems
  show ?case
    using set_update_subset [of word "wProbability data cwc uwc word" acc] by auto
qed

lemma wp_loop_keys:
  "fst ` set (wProbabilities_loop data cwc uwc words acc) = fst ` set acc \<union> set words"
  by (induction words arbitrary: acc) (auto simp: AList.dom_update)

lemma wp_loop_distinct:
  "distinct (map fst acc) \<Longrightarrow> distinct (map fst (wProbabilities_loop data cwc uwc words acc))"
  by (induction words arbitrary: acc) (simp_all add: AList.distinct_update)

lemma result_loop_fin:
  "\<forall>(g, v) \<in> set wp. v = Fin (f g) \<Longrightarrow>
   result_loop (Fin r) wp = Fin (r * prod_list (map f (map fst wp)))"
  by (induction wp arbitrary: r) (auto simp: mult.assoc)

text \<open>
  The product of finite factors depends on the keys of the map only, not on the order
  in which the loop visits them.
\<close>

lemma result_loop_keys:
  assumes "\<forall>(g, v) \<in> set wp. v = Fin (f g)" and "distinct (map fst wp)"
  shows "result_loop (Fin r) wp = Fin (r * (\<Prod>g \<in> fst ` set wp. f g))"
proof -
  have "result_loop (Fin r) wp = Fin (r * prod_list (map f (map fst wp)))"
    using assms(1) by (rule result_loop_fin)
  moreover have "prod f (set (map fst wp)) = prod_list (map f (map fst wp))"
    using assms(2) by (rule prod.distinct_set_conv_list)
  ultimately show ?thesis by simp
qed

lemma result_loop_wp:
  assumes "\<forall>g. wProbability data cwc uwc g = Fin (f g)"
  shows "result_loop (Fin r) (wProbabilities_loop data cwc uwc words []) =
         Fin (r * (\<Prod>g \<in> set words. f g))"
proof -
  let ?wp = "wProbabilities_loop data cwc uwc words []"
  have "\<forall>(g, v) \<in> set ?wp. v = Fin (f g)"
    using wp_loop_entries [of _ _ data cwc uwc words "[]"] assms by auto
  moreover have "distinct (map fst ?wp)" by (simp add: wp_loop_distinct)
  ultimately have "result_loop (Fin r) ?wp = Fin (r * (\<Prod>g \<in> fst ` set ?wp. f g))"
    by (rule result_loop_keys)
  moreover have "fst ` set ?wp = set words"
    using wp_loop_keys [of data cwc uwc words "[]"] by simp
  ultimately show ?thesis by simp
qed

lemma Classify_loop_eq:
  assumes "\<forall>(class, data) \<in> set rest. map_of (Classes c) class = Some data"
    and "distinct (map fst rest)"
    and "fst ` set acc \<inter> fst ` set rest = {}"
  shows "Classify_loop c uwc words rest acc =
     Inr (acc @ map (\<lambda>(class, data).
                 (class, result_loop (fdiv (Class.Documents data) (Classifier.Documents c))
                           (wProbabilities_loop data (f64_of_len (Words data)) uwc words [])))
               rest, c)"
  using assms
proof (induction rest arbitrary: acc)
  case Nil
  then show ?case by simp
next
  case (Cons entry rest)
  obtain "class" data where e: "entry = (class, data)" by (cases entry)
  let ?result = "result_loop (fdiv (Class.Documents data) (Classifier.Documents c))
                   (wProbabilities_loop data (f64_of_len (Words data)) uwc words [])"
  have g: "GetPrior c class = Inr (fdiv (Class.Documents data) (Classifier.Documents c), c)"
    using Cons.prems(1) e by (simp add: GetPrior_Some)
  have fresh: "class \<notin> fst ` set acc"
    using Cons.prems(3) e by auto
  then have u: "AList.update class ?result acc = acc @ [(class, ?result)]"
    by (rule update_fresh)
  have d: "fst ` set (acc @ [(class, ?result)]) \<inter> fst ` set rest = {}"
    using Cons.prems(2,3) e by auto
  have "Classify_loop c uwc words rest (acc @ [(class, ?result)]) =
     Inr ((acc @ [(class, ?result)]) @ map (\<lambda>(class, data).
                 (class, result_loop (fdiv (Class.Documents data) (Classifier.Documents c))
                           (wProbabilities_loop data (f64_of_len (Words data)) uwc words [])))
               rest, c)"
    using Cons.prems(1,2) by (intro Cons.IH d) auto
  then show ?case
    using e g u by (simp add: Let_def)
qed

lemma map_of_distinct_entry:
  "distinct (map fst al) \<Longrightarrow> (k, v) \<in> set al \<Longrightarrow> map_of al k = Some v"
  by simp

lemma map_of_map_entry:
  assumes "distinct (map fst al)" "(k, v) \<in> set al"
  shows "map_of (map (\<lambda>(k, v). (k, f k v)) al) k = Some (f k v)"
proof -
  have "map fst (map (\<lambda>(k, v). (k, f k v)) al) = map fst al"
    by (induction al) auto
  then have "distinct (map fst (map (\<lambda>(k, v). (k, f k v)) al))"
    using assms(1) by (simp only:)
  moreover have "(k, f k v) \<in> set (map (\<lambda>(k, v). (k, f k v)) al)"
    using assms(2) by force
  ultimately show ?thesis by (rule map_of_distinct_entry)
qed

lemma trained_wProbability:
  assumes inv: "trained n0 k c" and k: "0 < k" and mem: "(class, data) \<in> set (Classes c)"
  shows "wProbability data (f64_of_len (Words data)) (f64_of_len (UniqueWords c)) g =
           Fin (smoothed c data g)"
proof -
  have wf: "wf_class data" using inv mem by (auto simp: trained_def)
  then have "counts (WordFreq data) (Words data)" by (simp add: wf_class_def)
  then have fr: "(case map_of (WordFreq data) g of None \<Rightarrow> Fin 0 | Some v \<Rightarrow> v) =
       Fin (of_nat (count_list (Words data) g))"
    by (simp add: counts_def)
  have "distinct (map fst (UniqueWords c))" using inv by (simp add: trained_def)
  then have "card (set (map fst (UniqueWords c))) = length (map fst (UniqueWords c))"
    by (rule distinct_card)
  then have cd: "card (fst ` set (UniqueWords c)) = length (UniqueWords c)" by simp
  have "UniqueWords c \<noteq> []" using inv k by (simp add: trained_def)
  then have "0 < length (UniqueWords c)" by simp
  then have nz: "(of_nat (length (Words data)) + of_nat (length (UniqueWords c)) :: rat) \<noteq> 0"
    by (metis of_nat_0_less_iff of_nat_add add_gr_0 less_numeral_extra(3) of_nat_0_eq_iff
          add.commute)
  show ?thesis
    using nz by (simp add: wProbability_def Let_def fr f64_of_len_def smoothed_def cd)
qed

lemma smoothed_bounds:
  assumes inv: "trained n0 k c" and k: "0 < k"
  shows "0 < smoothed c data g \<and> smoothed c data g \<le> 1"
proof -
  have "distinct (map fst (UniqueWords c))" using inv by (simp add: trained_def)
  then have "card (set (map fst (UniqueWords c))) = length (map fst (UniqueWords c))"
    by (rule distinct_card)
  then have cd: "card (fst ` set (UniqueWords c)) = length (UniqueWords c)" by simp
  have "UniqueWords c \<noteq> []" using inv k by (simp add: trained_def)
  then have v: "1 \<le> length (UniqueWords c)" by (cases "UniqueWords c") auto
  have "count_list (Words data) g \<le> length (Words data)" by (rule count_le_length)
  then have "count_list (Words data) g + 1 \<le> length (Words data) + length (UniqueWords c)"
    using v by linarith
  then have le: "(of_nat (count_list (Words data) g) + 1 :: rat) \<le>
     of_nat (length (Words data)) + of_nat (length (UniqueWords c))"
    by (metis of_nat_le_iff of_nat_add of_nat_1)
  have pos: "(0::rat) < of_nat (count_list (Words data) g) + 1"
    by (simp add: add_nonneg_pos)
  then have dpos: "(0::rat) < of_nat (length (Words data)) + of_nat (length (UniqueWords c))"
    using le by linarith
  show ?thesis
    using pos dpos le by (simp add: smoothed_def cd)
qed

lemma trained_Classify:
  assumes inv: "trained n0 k c" and k: "0 < k"
  shows "\<exists>words. SplitWords (NSplit c) sentence = Inr words \<and>
     Classify c sentence =
       Inr (map (\<lambda>(class, data).
                  (class, Fin (fin_val (Class.Documents data) / of_nat k *
                               (\<Prod>g \<in> set words. smoothed c data g))))
                (Classes c), c)"
proof -
  have "0 \<le> NSplit c" using inv k by (simp add: trained_def)
  then obtain words where sw: "SplitWords (NSplit c) sentence = Inr words"
    using SplitWords_succeeds by blast
  have dist: "distinct (map fst (Classes c))" using inv by (simp add: trained_def)
  have tot: "Classifier.Documents c = Fin (of_nat k)" using inv by (simp add: trained_def)
  let ?uwc = "f64_of_len (UniqueWords c)"
  have "Classify c sentence = Classify_loop c ?uwc words (Classes c) []"
    using sw by (simp add: Classify_def Let_def)
  also have "\<dots> = Inr ([] @ map (\<lambda>(class, data).
                 (class, result_loop (fdiv (Class.Documents data) (Classifier.Documents c))
                           (wProbabilities_loop data (f64_of_len (Words data)) ?uwc words [])))
               (Classes c), c)"
    using dist by (intro Classify_loop_eq) auto
  also have "map (\<lambda>(class, data).
                 (class, result_loop (fdiv (Class.Documents data) (Classifier.Documents c))
                           (wProbabilities_loop data (f64_of_len (Words data)) ?uwc words [])))
               (Classes c) =
             map (\<lambda>(class, data).
                  (class, Fin (fin_val (Class.Documents data) / of_nat k *
                               (\<Prod>g \<in> set words. smoothed c data g))))
                (Classes c)"
  proof (rule map_cong [OF refl])
    fix e assume em: "e \<in> set (Classes c)"
    obtain "class" data where e: "e = (class, data)" by (cases e)
    have mem: "(class, data) \<in> set (Classes c)" using em e by simp
    then have "wf_class data" using inv by (auto simp: trained_def)
    then obtain j :: nat where j: "Class.Documents data = Fin (of_nat j)"
      by (auto simp: wf_class_def)
    have pr: "fdiv (Class.Documents data) (Classifier.Documents c) = Fin (of_nat j / of_nat k)"
      using j tot k by simp
    have "\<forall>g. wProbability data (f64_of_len (Words data)) ?uwc g = Fin (smoothed c data g)"
      using trained_wProbability [OF inv k mem] by blast
    then have "result_loop (Fin (of_nat j / of_nat k))
                 (wProbabilities_loop data (f64_of_len (Words data)) ?uwc words []) =
               Fin (of_nat j / of_nat k * (\<Prod>g \<in> set words. smoothed c data g))"
      by (rule result_loop_wp)
    then show "(case e of (class, data) \<Rightarrow>
                 (class, result_loop (fdiv (Class.Documents data) (Classifier.Documents c))
                  (wProbabilities_loop data (f64_of_len (Words data)) ?uwc words []))) =
               (case e of (class, data) \<Rightarrow>
                 (class, Fin (fin_val (Class.Documents data) / of_nat k *
                               (\<Prod>g \<in> set words. smoothed c data g))))"
      using pr j e by simp
  qed
  finally show ?thesis using sw by simp
qed

lemma trained_GetPrior:
  assumes inv: "trained n0 k c" and k: "0 < k" and mem: "(class, data) \<in> set (Classes c)"
  shows "GetPrior c class = Inr (Fin (fin_val (Class.Documents data) / of_nat k), c)"
proof -
  have "distinct (map fst (Classes c))" using inv by (simp add: trained_def)
  then have "map_of (Classes c) class = Some data" using mem by simp
  moreover have "wf_class data" using inv mem by (auto simp: trained_def)
  then obtain j :: nat where "Class.Documents data = Fin (of_nat j)"
    by (auto simp: wf_class_def)
  moreover have "Classifier.Documents c = Fin (of_nat k)" using inv by (simp add: trained_def)
  ultimately show ?thesis using k by (simp add: GetPrior_Some)
qed

subsection \<open>The scores\<close>

text \<open>
  Claim C1, amended. For a classifier on which at least one \<^verbatim>\<open>Train\<close> call has been
  made and every query sentence, \<^verbatim>\<open>Classify\<close> returns one score for each known class,
  in the order of the classes: the product of \<^verbatim>\<open>GetPrior\<close> of the class and, for each
  distinct n-gram \<open>g\<close> of the tokenized query, one factor \<open>smoothed c data g\<close>, that is
  (occurrences of \<open>g\<close> in the \<^verbatim>\<open>Words\<close> of the class + 1) divided by (length of the
  \<^verbatim>\<open>Words\<close> of the class + number of distinct keys of \<^verbatim>\<open>UniqueWords\<close>). An n-gram that
  occurs several times in the query gives one factor, since the probabilities are
  stored in a map keyed by the n-gram before they are multiplied.
\<close>

theorem Classify_distinct_grams:
  assumes "TrainAll (NewClassifier n) calls = Inr c" and "calls \<noteq> []"
  shows "\<exists>words probabilities.
     SplitWords (NSplit c) sentence = Inr words \<and>
     Classify c sentence = Inr (probabilities, c) \<and>
     map fst probabilities = map fst (Classes c) \<and>
     (\<forall>(class, data) \<in> set (Classes c). \<exists>prior.
         GetPrior c class = Inr (Fin prior, c) \<and>
         map_of probabilities class =
           Some (Fin (prior * (\<Prod>g \<in> set words. smoothed c data g))))"
proof -
  have inv: "trained n (length calls) c" using assms(1) by (rule trained_reachable)
  have k: "0 < length calls" using assms(2) by simp
  let ?score = "\<lambda>words class data. Fin (fin_val (Class.Documents data) / of_nat (length calls) *
                               (\<Prod>g \<in> set words. smoothed c data g))"
  from trained_Classify [OF inv k, of sentence] obtain words where
    sw: "SplitWords (NSplit c) sentence = Inr words" and
    cl: "Classify c sentence = Inr (map (\<lambda>(class, data). (class, ?score words class data)) (Classes c), c)"
    by blast
  let ?probs = "map (\<lambda>(class, data). (class, ?score words class data)) (Classes c)"
  have keys: "map fst ?probs = map fst (Classes c)"
    by (induction "Classes c") (auto simp: case_prod_unfold)
  have dist: "distinct (map fst (Classes c))" using inv by (simp add: trained_def)
  have "\<forall>(class, data) \<in> set (Classes c). \<exists>prior.
         GetPrior c class = Inr (Fin prior, c) \<and>
         map_of ?probs class = Some (Fin (prior * (\<Prod>g \<in> set words. smoothed c data g)))"
  proof clarify
    fix "class" data assume mem: "(class, data) \<in> set (Classes c)"
    have "GetPrior c class = Inr (Fin (fin_val (Class.Documents data) / of_nat (length calls)), c)"
      using inv k mem by (rule trained_GetPrior)
    moreover have "map_of ?probs class = Some (?score words class data)"
      using dist mem by (rule map_of_map_entry)
    ultimately show "\<exists>prior. GetPrior c class = Inr (Fin prior, c) \<and>
         map_of ?probs class = Some (Fin (prior * (\<Prod>g \<in> set words. smoothed c data g)))"
      by blast
  qed
  with sw cl keys show ?thesis by blast
qed

theorem Classify_distinct_grams_witness:
  "TrainAll (NewClassifier 1) [(''x'', ''a b'')] = Inr trained_ab \<and>
   [(''x'', ''a b'')] \<noteq> ([] :: (string \<times> string) list) \<and>
   (\<exists>probabilities. Classify trained_ab ''a a'' = Inr (probabilities, trained_ab) \<and>
      map fst probabilities = [''x''] \<and>
      map_of probabilities ''x'' = Some (Fin (1 / 2)))"
proof -
  let ?d = "\<lparr>Class.Documents = Fin 1, Words = [''a'', ''b''],
             WordFreq = [(''a'', Fin 1), (''b'', Fin 1)]\<rparr>"
  have h: "TrainAll (NewClassifier 1) [(''x'', ''a b'')] = Inr trained_ab" by code_simp
  have ne: "[(''x'', ''a b'')] \<noteq> ([] :: (string \<times> string) list)" by simp
  from Classify_distinct_grams [OF h ne, of "''a a''"] obtain words probabilities where
    sw: "SplitWords (NSplit trained_ab) ''a a'' = Inr words" and
    cl: "Classify trained_ab ''a a'' = Inr (probabilities, trained_ab)" and
    keys: "map fst probabilities = map fst (Classes trained_ab)" and
    all: "\<forall>(class, data) \<in> set (Classes trained_ab). \<exists>prior.
         GetPrior trained_ab class = Inr (Fin prior, trained_ab) \<and>
         map_of probabilities class =
           Some (Fin (prior * (\<Prod>g \<in> set words. smoothed trained_ab data g)))"
    by blast
  have "SplitWords (NSplit trained_ab) ''a a'' = Inr [''a'', ''a'']" by code_simp
  with sw have w: "words = [''a'', ''a'']" by simp
  have "(''x'', ?d) \<in> set (Classes trained_ab)" by (simp add: trained_ab_def)
  with all obtain prior where
    p: "GetPrior trained_ab ''x'' = Inr (Fin prior, trained_ab)" and
    m: "map_of probabilities ''x'' =
           Some (Fin (prior * (\<Prod>g \<in> set words. smoothed trained_ab ?d g)))"
    by blast
  have "GetPrior trained_ab ''x'' = Inr (Fin 1, trained_ab)" by code_simp
  with p have p1: "prior = 1" by simp
  have "(\<Prod>g \<in> set words. smoothed trained_ab ?d g) = 1 / 2"
    using w by (simp add: smoothed_def trained_ab_def)
  with m p1 have v: "map_of probabilities ''x'' = Some (Fin (1 / 2))" by simp
  have ks: "map fst probabilities = [''x'']" using keys by (simp add: trained_ab_def)
  have "\<exists>probabilities. Classify trained_ab ''a a'' = Inr (probabilities, trained_ab) \<and>
      map fst probabilities = [''x''] \<and>
      map_of probabilities ''x'' = Some (Fin (1 / 2))"
    by (rule exI [of _ probabilities]) (rule conjI [OF cl conjI [OF ks v]])
  then show ?thesis by (rule conjI [OF h conjI [OF ne]])
qed

text \<open>
  The claim as first stated, with one factor for each occurrence, fails on the query
  \<^verbatim>\<open>"a a"\<close>: \<^verbatim>\<open>Classify\<close> returns the score 1/2 for the class, one factor 1/2 on
  the prior 1, where the product over both occurrences is 1/4.
\<close>

theorem Classify_duplicates_counterexample:
  "TrainAll (NewClassifier 1) [(''x'', ''a b'')] = Inr trained_ab \<and>
   SplitWords (NSplit trained_ab) ''a a'' = Inr [''a'', ''a''] \<and>
   GetPrior trained_ab ''x'' = Inr (Fin 1, trained_ab) \<and>
   Classify trained_ab ''a a'' = Inr ([(''x'', Fin (1 / 2))], trained_ab) \<and>
   Classify_score_spec trained_ab
     \<lparr>Class.Documents = Fin 1, Words = [''a'', ''b''],
      WordFreq = [(''a'', Fin 1), (''b'', Fin 1)]\<rparr> (Fin 1) [''a'', ''a''] = Fin (1 / 4)"
  by code_simp

text \<open>
  Claim C7. For a classifier on which at least one \<^verbatim>\<open>Train\<close> call has been made and
  every query sentence, every score that \<^verbatim>\<open>Classify\<close> returns is finite and not
  negative, and in every class the smoothed factor of every n-gram is a finite value
  \<open>p\<close> with \<open>0 < p \<le> 1\<close>.
\<close>

theorem Classify_scores_bounds:
  assumes "TrainAll (NewClassifier n) calls = Inr c" and "calls \<noteq> []"
  shows "(\<exists>probabilities. Classify c sentence = Inr (probabilities, c) \<and>
            (\<forall>(class, score) \<in> set probabilities. \<exists>r. score = Fin r \<and> 0 \<le> r)) \<and>
         (\<forall>(class, data) \<in> set (Classes c). \<forall>g. \<exists>p.
            wProbability data (f64_of_len (Words data)) (f64_of_len (UniqueWords c)) g = Fin p \<and>
            0 < p \<and> p \<le> 1)"
proof
  have inv: "trained n (length calls) c" using assms(1) by (rule trained_reachable)
  have k: "0 < length calls" using assms(2) by simp
  let ?score = "\<lambda>words class data. Fin (fin_val (Class.Documents data) / of_nat (length calls) *
                               (\<Prod>g \<in> set words. smoothed c data g))"
  from trained_Classify [OF inv k, of sentence] obtain words where
    cl: "Classify c sentence = Inr (map (\<lambda>(class, data). (class, ?score words class data)) (Classes c), c)"
    by blast
  let ?probs = "map (\<lambda>(class, data). (class, ?score words class data)) (Classes c)"
  have "\<forall>(class, score) \<in> set ?probs. \<exists>r. score = Fin r \<and> 0 \<le> r"
  proof clarify
    fix "class" score assume "(class, score) \<in> set ?probs"
    then obtain data where mem: "(class, data) \<in> set (Classes c)"
      and sc: "score = ?score words class data" by auto
    have "wf_class data" using inv mem by (auto simp: trained_def)
    then obtain j :: nat where "Class.Documents data = Fin (of_nat j)"
      by (auto simp: wf_class_def)
    then have "(0::rat) \<le> fin_val (Class.Documents data) / of_nat (length calls)" by simp
    moreover have "(0::rat) \<le> (\<Prod>g \<in> set words. smoothed c data g)"
      using smoothed_bounds [OF inv k] by (intro prod_nonneg) (auto intro: less_imp_le)
    ultimately have "(0::rat) \<le> fin_val (Class.Documents data) / of_nat (length calls) *
                               (\<Prod>g \<in> set words. smoothed c data g)"
      by (rule mult_nonneg_nonneg)
    then show "\<exists>r. score = Fin r \<and> 0 \<le> r" using sc by blast
  qed
  with cl show "\<exists>probabilities. Classify c sentence = Inr (probabilities, c) \<and>
            (\<forall>(class, score) \<in> set probabilities. \<exists>r. score = Fin r \<and> 0 \<le> r)"
    by blast
  show "\<forall>(class, data) \<in> set (Classes c). \<forall>g. \<exists>p.
            wProbability data (f64_of_len (Words data)) (f64_of_len (UniqueWords c)) g = Fin p \<and>
            0 < p \<and> p \<le> 1"
    using trained_wProbability [OF inv k] smoothed_bounds [OF inv k] by blast
qed

theorem Classify_scores_bounds_witness:
  "TrainAll (NewClassifier 1) [(''x'', ''a b'')] = Inr trained_ab \<and>
   [(''x'', ''a b'')] \<noteq> ([] :: (string \<times> string) list) \<and>
   (\<exists>p. wProbability
           \<lparr>Class.Documents = Fin 1, Words = [''a'', ''b''],
            WordFreq = [(''a'', Fin 1), (''b'', Fin 1)]\<rparr>
           (f64_of_len [''a'', ''b'']) (f64_of_len (UniqueWords trained_ab)) ''c'' = Fin p \<and>
        0 < p \<and> p \<le> 1 \<and> p = 1 / 4) \<and>
   (\<exists>r. Classify trained_ab ''a c'' = Inr ([(''x'', Fin r)], trained_ab) \<and> 0 \<le> r)"
proof -
  let ?d = "\<lparr>Class.Documents = Fin 1, Words = [''a'', ''b''],
             WordFreq = [(''a'', Fin 1), (''b'', Fin 1)]\<rparr>"
  have h: "TrainAll (NewClassifier 1) [(''x'', ''a b'')] = Inr trained_ab" by code_simp
  have ne: "[(''x'', ''a b'')] \<noteq> ([] :: (string \<times> string) list) " by simp
  note b = Classify_scores_bounds [OF h ne, of "''a c''"]
  have mem: "(''x'', ?d) \<in> set (Classes trained_ab)" by (simp add: trained_ab_def)
  from b mem obtain p where
    p: "wProbability ?d (f64_of_len (Words ?d)) (f64_of_len (UniqueWords trained_ab)) ''c'' = Fin p"
    and pb: "0 < p" "p \<le> 1"
    by blast
  have "wProbability ?d (f64_of_len (Words ?d)) (f64_of_len (UniqueWords trained_ab)) ''c'' =
        Fin (1 / 4)"
    by code_simp
  with p have pv: "p = 1 / 4" by simp
  have p': "wProbability ?d
           (f64_of_len [''a'', ''b'']) (f64_of_len (UniqueWords trained_ab)) ''c'' = Fin p"
    using p by simp
  have first: "\<exists>p. wProbability ?d
           (f64_of_len [''a'', ''b'']) (f64_of_len (UniqueWords trained_ab)) ''c'' = Fin p \<and>
        0 < p \<and> p \<le> 1 \<and> p = 1 / 4"
    by (rule exI [of _ p]) (rule conjI [OF p' conjI [OF pb(1) conjI [OF pb(2) pv]]])
  from b obtain probabilities where
    cl: "Classify trained_ab ''a c'' = Inr (probabilities, trained_ab)" and
    nn: "\<forall>(class, score) \<in> set probabilities. \<exists>r. score = Fin r \<and> 0 \<le> r"
    by blast
  have "Classify trained_ab ''a c'' = Inr ([(''x'', Fin (1 / 8))], trained_ab)" by code_simp
  with cl have pr: "probabilities = [(''x'', Fin (1 / 8))]" by simp
  with nn obtain r where r: "Fin (1 / 8) = Fin r" "0 \<le> r" by auto
  have "Classify trained_ab ''a c'' = Inr ([(''x'', Fin r)], trained_ab)"
    using cl pr r(1) by simp
  then have second:
    "\<exists>r. Classify trained_ab ''a c'' = Inr ([(''x'', Fin r)], trained_ab) \<and> 0 \<le> r"
    using r(2) by blast
  show ?thesis by (rule conjI [OF h conjI [OF ne conjI [OF first second]]])
qed

subsection \<open>The priors\<close>

lemma sum_list_divide:
  fixes h :: "'a \<Rightarrow> rat"
  shows "sum_list (map (\<lambda>x. h x / k) xs) = sum_list (map h xs) / k"
  by (induction xs) (simp_all add: add_divide_distrib)

text \<open>
  Claim C8. For a classifier on which at least one \<^verbatim>\<open>Train\<close> call has been made,
  \<^verbatim>\<open>GetPrior\<close> returns a value for every label of \<^verbatim>\<open>Classes\<close>, and these values sum
  to 1 in exact arithmetic. Every \<^verbatim>\<open>Train\<close> call assigns its sentence to one class.
\<close>

theorem GetPrior_sum:
  assumes "TrainAll (NewClassifier n) calls = Inr c" and "calls \<noteq> []"
  shows "\<exists>priors.
     list_all2 (\<lambda>(class, data) prior. GetPrior c class = Inr (prior, c)) (Classes c) priors \<and>
     fsum priors = Fin 1"
proof -
  have inv: "trained n (length calls) c" using assms(1) by (rule trained_reachable)
  have k: "0 < length calls" using assms(2) by simp
  define K :: rat where "K = of_nat (length calls)"
  have K: "K \<noteq> 0" using k by (simp add: K_def)
  let ?d = "\<lambda>e :: string \<times> Class. fin_val (Class.Documents (snd e))"
  let ?priors = "map (\<lambda>e. Fin (?d e / K)) (Classes c)"
  have "\<forall>e \<in> set (Classes c). GetPrior c (fst e) = Inr (Fin (?d e / K), c)"
    using trained_GetPrior [OF inv k] by (auto simp: K_def)
  then have all: "list_all2 (\<lambda>(class, data) prior. GetPrior c class = Inr (prior, c))
                    (Classes c) ?priors"
    by (auto simp: list_all2_map2 case_prod_unfold intro!: list_all2_same [THEN iffD2])
  have "fsum ?priors = Fin (sum_list (map fin_val ?priors))"
    by (rule fsum_fin) auto
  also have "map fin_val ?priors = map (\<lambda>e. ?d e / K) (Classes c)"
    by simp
  also have "sum_list \<dots> = sum_list (map ?d (Classes c)) / K"
    by (rule sum_list_divide)
  also have "sum_list (map ?d (Classes c)) = K"
    using inv by (simp add: trained_def docs_sum_def K_def case_prod_unfold)
  finally have "fsum ?priors = Fin 1" using K by simp
  with all show ?thesis by blast
qed

theorem GetPrior_sum_witness:
  "TrainAll (NewClassifier 1) [(''x'', ''a b''), (''y'', ''b''), (''x'', ''c'')] = Inr trained_xy \<and>
   [(''x'', ''a b''), (''y'', ''b''), (''x'', ''c'')] \<noteq> ([] :: (string \<times> string) list) \<and>
   GetPrior trained_xy ''x'' = Inr (Fin (2 / 3), trained_xy) \<and>
   GetPrior trained_xy ''y'' = Inr (Fin (1 / 3), trained_xy) \<and>
   fsum [Fin (2 / 3), Fin (1 / 3)] = Fin 1"
proof -
  have h: "TrainAll (NewClassifier 1) [(''x'', ''a b''), (''y'', ''b''), (''x'', ''c'')] =
             Inr trained_xy"
    by code_simp
  have ne: "[(''x'', ''a b''), (''y'', ''b''), (''x'', ''c'')] \<noteq> ([] :: (string \<times> string) list)"
    by simp
  from GetPrior_sum [OF h ne] obtain priors where
    all: "list_all2 (\<lambda>(class, data) prior. GetPrior trained_xy class = Inr (prior, trained_xy))
            (Classes trained_xy) priors" and
    s: "fsum priors = Fin 1"
    by blast
  from all obtain px py where priors: "priors = [px, py]" and
    px: "GetPrior trained_xy ''x'' = Inr (px, trained_xy)" and
    py: "GetPrior trained_xy ''y'' = Inr (py, trained_xy)"
    by (auto simp: trained_xy_def list_all2_Cons1)
  have gx: "GetPrior trained_xy ''x'' = Inr (Fin (2 / 3), trained_xy)" by code_simp
  have gy: "GetPrior trained_xy ''y'' = Inr (Fin (1 / 3), trained_xy)" by code_simp
  from px gx py gy priors have "priors = [Fin (2 / 3), Fin (1 / 3)]" by simp
  with s have f: "fsum [Fin (2 / 3), Fin (1 / 3)] = Fin 1" by (simp only:)
  show ?thesis by (rule conjI [OF h conjI [OF ne conjI [OF gx conjI [OF gy f]]]])
qed

end
